theory Spec2Isabelle
  imports Complex_Main "HOL-Library.AList" "HOL-Library.Multiset"
begin

section \<open>Python strings\<close>

text \<open>
  The program works on Python \<^verbatim>\<open>str\<close> values. They are modelled as \<^typ>\<open>string\<close>, and the
  string methods the program calls (\<^verbatim>\<open>upper\<close>, \<^verbatim>\<open>lower\<close>, \<^verbatim>\<open>isalpha\<close>, \<^verbatim>\<open>strip\<close>,
  \<^verbatim>\<open>split\<close>) are given their meaning on ASCII text: the 26 letters have a case, the
  whitespace characters are the ten ASCII ones that \<^verbatim>\<open>str.isspace\<close> accepts, and every
  other character is left alone by the case mappings. The model is of ASCII text only: on other
  text Python's case mappings do more (they can change the length of a string), and no
  statement about every string below uses a property of these mappings.
\<close>

definition ascii_lowercase :: string where
  "ascii_lowercase = ''abcdefghijklmnopqrstuvwxyz''"

definition ascii_uppercase :: string where
  "ascii_uppercase = ''ABCDEFGHIJKLMNOPQRSTUVWXYZ''"

definition chr_upper :: "char \<Rightarrow> char" where
  "chr_upper c = (case map_of (zip ascii_lowercase ascii_uppercase) c of Some u \<Rightarrow> u | None \<Rightarrow> c)"

definition chr_lower :: "char \<Rightarrow> char" where
  "chr_lower c = (case map_of (zip ascii_uppercase ascii_lowercase) c of Some l \<Rightarrow> l | None \<Rightarrow> c)"

definition str_upper :: "string \<Rightarrow> string" where
  "str_upper s = map chr_upper s"

definition str_lower :: "string \<Rightarrow> string" where
  "str_lower s = map chr_lower s"

definition isalpha :: "char \<Rightarrow> bool" where
  "isalpha c \<longleftrightarrow> c \<in> set (ascii_lowercase @ ascii_uppercase)"

definition isspace :: "char \<Rightarrow> bool" where
  "isspace c \<longleftrightarrow> c \<in> set [CHR 0x09, CHR 0x0A, CHR 0x0B, CHR 0x0C, CHR 0x0D,
                          CHR 0x1C, CHR 0x1D, CHR 0x1E, CHR 0x1F, CHR '' '']"

definition str_strip :: "string \<Rightarrow> string" where
  "str_strip s = rev (dropWhile isspace (rev (dropWhile isspace s)))"

fun split_from :: "string \<Rightarrow> string \<Rightarrow> string list" where
  "split_from token [] = (if token = [] then [] else [token])"
| "split_from token (c # cs) =
     (if isspace c then (if token = [] then split_from [] cs else token # split_from [] cs)
      else split_from (token @ [c]) cs)"

definition str_split :: "string \<Rightarrow> string list" where
  "str_split s = split_from [] s"


section \<open>The lexicon\<close>

text \<open>
  The three fields of \<^verbatim>\<open>SimpleBrailleAutocorrect\<close>. \<^verbatim>\<open>dictionary\<close> is a Python set: it is
  kept as a list without duplicates whose order is the order in which the \<^verbatim>\<open>for\<close> loop of
  \<^verbatim>\<open>find_suggestions\<close> visits it (CPython fixes no such order, so statements about
  \<^verbatim>\<open>find_suggestions\<close> are made for every order). \<^verbatim>\<open>word_count\<close> and \<^verbatim>\<open>learned_fixes\<close>
  are Python dicts: association lists in insertion order, read with \<^const>\<open>map_of\<close> and
  written with \<^const>\<open>AList.update\<close>, which overwrites a key in place and appends a new one.
\<close>

record lexicon =
  dictionary :: "string list"
  word_count :: "(string \<times> int) list"
  learned_fixes :: "(string \<times> string) list"

definition add_word :: "lexicon \<Rightarrow> string \<Rightarrow> lexicon" where
  "add_word self word0 =
     (let word = str_strip (str_lower word0) in
      if word \<noteq> [] then
        self\<lparr>dictionary :=
               (if word \<in> set (dictionary self) then dictionary self
                else dictionary self @ [word]),
             word_count :=
               AList.update word
                 ((case map_of (word_count self) word of None \<Rightarrow> 0 | Some c \<Rightarrow> c) + 1)
                 (word_count self)\<rparr>
      else self)"

definition basic_words :: "string list" where
  "basic_words =
    [''the'', ''and'', ''for'', ''are'', ''but'', ''not'', ''you'', ''all'', ''can'', ''had'',
     ''her'', ''was'', ''one'', ''our'', ''out'', ''day'', ''get'', ''has'', ''him'', ''his'',
     ''how'', ''man'', ''new'', ''now'', ''old'', ''see'', ''two'', ''way'', ''who'', ''boy'',
     ''did'', ''its'', ''let'', ''put'', ''say'', ''she'', ''too'', ''use'', ''good'', ''have'',
     ''just'', ''like'', ''over'', ''also'', ''back'', ''call'', ''came'', ''each'', ''find'',
     ''give'', ''hand'', ''here'', ''keep'', ''kind'', ''know'', ''last'', ''left'', ''life'',
     ''live'', ''look'', ''made'', ''make'', ''most'', ''move'', ''must'', ''name'', ''need'',
     ''only'', ''open'', ''part'', ''play'', ''right'', ''said'', ''same'', ''seem'', ''show'',
     ''side'', ''take'', ''tell'', ''turn'', ''want'', ''well'', ''went'', ''were'', ''what'',
     ''when'', ''where'', ''which'', ''will'', ''with'', ''word'', ''work'', ''world'', ''year'',
     ''hello'', ''computer'', ''braille'', ''system'', ''keyboard'', ''typing'', ''input'']"

definition load_basic_words :: "lexicon \<Rightarrow> lexicon" where
  "load_basic_words self = fold (\<lambda>word s. add_word s word) basic_words self"

definition init :: lexicon where
  "init = load_basic_words \<lparr>dictionary = [], word_count = [], learned_fixes = []\<rparr>"

definition learn_correction :: "lexicon \<Rightarrow> string \<Rightarrow> string \<Rightarrow> lexicon" where
  "learn_correction self wrong_word0 correct_word0 =
     (let wrong_word = str_lower wrong_word0;
          correct_word = str_lower correct_word0;
          self = self\<lparr>learned_fixes := AList.update wrong_word correct_word (learned_fixes self)\<rparr>
      in add_word self correct_word)"

text \<open>
  Modelled from the spec: \<^verbatim>\<open>frequencyOf(word) -> integer (0 if absent)\<close>, the reading of
  \<^verbatim>\<open>word_count\<close> that the specification names; the source has no method for it and
  reads the dict in place.
\<close>

definition frequencyOf :: "lexicon \<Rightarrow> string \<Rightarrow> int" where
  "frequencyOf self word = (case map_of (word_count self) word of None \<Rightarrow> 0 | Some c \<Rightarrow> c)"

section \<open>The dot codec\<close>

text \<open>
  \<^verbatim>\<open>BRAILLE_KEYS\<close> and \<^verbatim>\<open>DOT_TO_LETTER\<close> are the two module-level dicts, read with
  \<^const>\<open>map_of\<close>. A dot pattern is the sorted tuple of the dots; the dots of the chord being
  typed are a Python set, and \<^verbatim>\<open>tuple(sorted(dots))\<close> is \<^const>\<open>sorted_list_of_set\<close>.
  The loop of \<^verbatim>\<open>convert_braille_input\<close> is a fold of its body \<open>convert_char\<close> over the
  upper-cased input, on the pair of the two local variables.
\<close>

definition BRAILLE_KEYS :: "(char \<times> nat) list" where
  "BRAILLE_KEYS = [(CHR ''D'', 1), (CHR ''W'', 2), (CHR ''Q'', 3),
                   (CHR ''K'', 4), (CHR ''O'', 5), (CHR ''P'', 6)]"

definition DOT_TO_LETTER :: "(nat list \<times> char) list" where
  "DOT_TO_LETTER =
    [([1], CHR ''a''), ([1, 2], CHR ''b''), ([1, 4], CHR ''c''), ([1, 4, 5], CHR ''d''),
     ([1, 5], CHR ''e''), ([1, 2, 4], CHR ''f''), ([1, 2, 4, 5], CHR ''g''),
     ([1, 2, 5], CHR ''h''), ([2, 4], CHR ''i''), ([2, 4, 5], CHR ''j''),
     ([1, 3], CHR ''k''), ([1, 2, 3], CHR ''l''), ([1, 3, 4], CHR ''m''),
     ([1, 3, 4, 5], CHR ''n''), ([1, 3, 5], CHR ''o''), ([1, 2, 3, 4], CHR ''p''),
     ([1, 2, 3, 4, 5], CHR ''q''), ([1, 2, 3, 5], CHR ''r''), ([2, 3, 4], CHR ''s''),
     ([2, 3, 4, 5], CHR ''t''), ([1, 3, 6], CHR ''u''), ([1, 2, 3, 6], CHR ''v''),
     ([2, 4, 5, 6], CHR ''w''), ([1, 3, 4, 6], CHR ''x''), ([1, 3, 4, 5, 6], CHR ''y''),
     ([1, 3, 5, 6], CHR ''z'')]"

definition dots_to_letter :: "nat set \<Rightarrow> char" where
  "dots_to_letter dots =
     (let dot_pattern = sorted_list_of_set dots
      in case map_of DOT_TO_LETTER dot_pattern of Some letter \<Rightarrow> letter | None \<Rightarrow> CHR ''?'')"

definition convert_char :: "char \<Rightarrow> string \<times> nat set \<Rightarrow> string \<times> nat set" where
  "convert_char char state =
     (let (result, current_dots) = state in
      if char = CHR '' '' then
        (if current_dots \<noteq> {}
         then (result @ [dots_to_letter current_dots] @ [CHR '' ''], {})
         else (result @ [CHR '' ''], current_dots))
      else case map_of BRAILLE_KEYS char of
        Some dot \<Rightarrow> (result, insert dot current_dots)
      | None \<Rightarrow>
        (if current_dots \<noteq> {}
         then (result @ [dots_to_letter current_dots] @ [chr_lower char], {})
         else (result @ [chr_lower char], current_dots)))"

definition convert_braille_input :: "string \<Rightarrow> string" where
  "convert_braille_input input_text =
     (let (result, current_dots) = fold convert_char (str_upper input_text) ([], {})
      in if current_dots \<noteq> {} then result @ [dots_to_letter current_dots] else result)"

text \<open>
  The same two methods as state transformers: each takes \<^verbatim>\<open>self\<close> and returns its result
  together with \<^verbatim>\<open>self\<close> as the call leaves it, and the object is handed from each call of
  a method on \<^verbatim>\<open>self\<close> to the statement after it. Neither body reads or assigns a field.
\<close>

definition dots_to_letter_st :: "lexicon \<Rightarrow> nat set \<Rightarrow> char \<times> lexicon" where
  "dots_to_letter_st self dots = (dots_to_letter dots, self)"

fun convert_chars_st :: "lexicon \<Rightarrow> string \<Rightarrow> string \<times> nat set \<Rightarrow> (string \<times> nat set) \<times> lexicon" where
  "convert_chars_st self [] state = (state, self)"
| "convert_chars_st self (char # rest) state =
     (let (result, current_dots) = state in
      if char = CHR '' '' then
        (if current_dots \<noteq> {}
         then (case dots_to_letter_st self current_dots of
                 (letter, self) \<Rightarrow> convert_chars_st self rest (result @ [letter] @ [CHR '' ''], {}))
         else convert_chars_st self rest (result @ [CHR '' ''], current_dots))
      else case map_of BRAILLE_KEYS char of
        Some dot \<Rightarrow> convert_chars_st self rest (result, insert dot current_dots)
      | None \<Rightarrow>
        (if current_dots \<noteq> {}
         then (case dots_to_letter_st self current_dots of
                 (letter, self) \<Rightarrow>
                   convert_chars_st self rest (result @ [letter] @ [chr_lower char], {}))
         else convert_chars_st self rest (result @ [chr_lower char], current_dots)))"

definition convert_braille_input_st :: "lexicon \<Rightarrow> string \<Rightarrow> string \<times> lexicon" where
  "convert_braille_input_st self input_text =
     (case convert_chars_st self (str_upper input_text) ([], {}) of
        ((result, current_dots), self) \<Rightarrow>
          if current_dots \<noteq> {}
          then (case dots_to_letter_st self current_dots of
                  (letter, self) \<Rightarrow> (result @ [letter], self))
          else (result, self))"

section \<open>Edit distance\<close>

text \<open>
  \<^verbatim>\<open>calculate_similarity\<close> fills a matrix of \<open>len1 + 1\<close> rows and \<open>len2 + 1\<close> columns in
  place. \<open>set_cell\<close> is the assignment \<^verbatim>\<open>matrix[i][j] = v\<close> (the rows are separate lists),
  \<open>fill_cell\<close> the body of the inner loop, and each \<^verbatim>\<open>for\<close> over a \<^verbatim>\<open>range\<close> a fold
  over the interval. All indices the source reads lie inside the matrix and the words.
\<close>

definition set_cell :: "nat list list \<Rightarrow> nat \<Rightarrow> nat \<Rightarrow> nat \<Rightarrow> nat list list" where
  "set_cell matrix i j v = matrix[i := (matrix ! i)[j := v]]"

definition fill_cell :: "string \<Rightarrow> string \<Rightarrow> nat \<Rightarrow> nat \<Rightarrow> nat list list \<Rightarrow> nat list list" where
  "fill_cell word1 word2 i j matrix =
     (let cost = (if word1 ! (i - 1) = word2 ! (j - 1) then 0 else 1)
      in set_cell matrix i j
           (min (matrix ! (i - 1) ! j + 1)
             (min (matrix ! i ! (j - 1) + 1)
                  (matrix ! (i - 1) ! (j - 1) + cost))))"

definition calculate_similarity :: "string \<Rightarrow> string \<Rightarrow> nat" where
  "calculate_similarity word1 word2 =
     (if word1 = word2 then 0
      else
        let len1 = length word1;
            len2 = length word2;
            matrix = replicate (len1 + 1) (replicate (len2 + 1) 0);
            matrix = fold (\<lambda>i m. set_cell m i 0 i) [0..<len1 + 1] matrix;
            matrix = fold (\<lambda>j m. set_cell m 0 j j) [0..<len2 + 1] matrix;
            matrix = fold (\<lambda>i m. fold (fill_cell word1 word2 i) [1..<len2 + 1] m)
                       [1..<len1 + 1] matrix
        in matrix ! len1 ! len2)"

text \<open>\<^verbatim>\<open>calculate_similarity\<close> as a state transformer; its body does not mention \<^verbatim>\<open>self\<close>.\<close>

definition calculate_similarity_st :: "lexicon \<Rightarrow> string \<Rightarrow> string \<Rightarrow> nat \<times> lexicon" where
  "calculate_similarity_st self word1 word2 = (calculate_similarity word1 word2, self)"

section \<open>Suggestions\<close>

text \<open>
  Errors are values. \<open>true_div\<close> is Python's division \<^verbatim>\<open>/\<close> of two ints: it raises
  \<^verbatim>\<open>ZeroDivisionError\<close> for a zero divisor and \<^verbatim>\<open>OverflowError\<close> when the quotient, rounded
  to the nearest float, is not finite, that is (\<open>overflows\<close>) when its magnitude is at least
  \<open>2 ^ 1024 - 2 ^ 970\<close>, half-way between the largest float and \<open>2 ^ 1024\<close>. The other float
  operations of the score (\<^verbatim>\<open>-\<close>, \<^verbatim>\<open>*\<close>, \<^verbatim>\<open>+\<close>) raise nothing. The values of the floats are
  modelled by exact rationals, without the rounding: two scores that differ by less than the
  rounding of a float may be ordered otherwise by the program, and no statement below rests on
  the order of such scores.
  \<^verbatim>\<open>suggestions[:max_suggestions]\<close> is Python slicing, where a negative bound counts from
  the end of the list.
\<close>

datatype py_error = ZeroDivisionError | OverflowError

type_synonym suggestion = "string \<times> rat \<times> nat"

definition slice_to :: "int \<Rightarrow> 'a list \<Rightarrow> 'a list" where
  "slice_to n xs = (if 0 \<le> n then take (nat n) xs else take (nat (int (length xs) + n)) xs)"

definition overflows :: "rat \<Rightarrow> bool" where
  "overflows x \<longleftrightarrow> 2 ^ 1024 - 2 ^ 970 \<le> \<bar>x\<bar>"

definition true_div :: "int \<Rightarrow> int \<Rightarrow> py_error + rat" where
  "true_div a b =
     (if b = 0 then Inl ZeroDivisionError
      else if overflows (rat_of_int a / rat_of_int b) then Inl OverflowError
      else Inr (rat_of_int a / rat_of_int b))"

definition score :: "lexicon \<Rightarrow> string \<Rightarrow> string \<Rightarrow> nat \<Rightarrow> py_error + suggestion" where
  "score self word dict_word distance =
     (case true_div (int distance) (int (max (length word) (length dict_word))) of
        Inl e \<Rightarrow> Inl e
      | Inr ratio \<Rightarrow>
          let similarity_score = 1 - ratio;
              frequency_score = (case map_of (word_count self) dict_word of None \<Rightarrow> 1 | Some c \<Rightarrow> c)
          in case true_div frequency_score 100 of
               Inl e \<Rightarrow> Inl e
             | Inr frequency \<Rightarrow>
                 Inr (dict_word, similarity_score * (7 / 10) + frequency * (3 / 10), distance))"

fun collect :: "lexicon \<Rightarrow> string \<Rightarrow> nat \<Rightarrow> string list \<Rightarrow> suggestion list \<Rightarrow>
    py_error + suggestion list" where
  "collect self word max_distance [] suggestions = Inr suggestions"
| "collect self word max_distance (dict_word # rest) suggestions =
     (let distance = calculate_similarity word dict_word in
      if distance \<le> max_distance then
        (case score self word dict_word distance of
           Inl e \<Rightarrow> Inl e
         | Inr s \<Rightarrow> collect self word max_distance rest (suggestions @ [s]))
      else collect self word max_distance rest suggestions)"

definition sort_by_score :: "suggestion list \<Rightarrow> suggestion list" where
  "sort_by_score suggestions = sort_key (\<lambda>x. - fst (snd x)) suggestions"

definition find_suggestions :: "lexicon \<Rightarrow> string \<Rightarrow> int \<Rightarrow> py_error + string list" where
  "find_suggestions self word0 max_suggestions =
     (let word = str_lower word0 in
      if word \<in> set (dictionary self) then Inr [word]
      else case map_of (learned_fixes self) word of
        Some fix \<Rightarrow> Inr [fix]
      | None \<Rightarrow>
          (let max_distance = min 3 (length word div 2 + 1) in
           case collect self word max_distance (dictionary self) [] of
             Inl e \<Rightarrow> Inl e
           | Inr suggestions \<Rightarrow>
               Inr (map fst (slice_to max_suggestions (sort_by_score suggestions)))))"

text \<open>
  \<^verbatim>\<open>find_suggestions\<close> as a state transformer: the loop hands \<^verbatim>\<open>self\<close> through every call
  of \<^verbatim>\<open>self.calculate_similarity\<close>; the fields are only read.
\<close>

fun collect_st :: "lexicon \<Rightarrow> string \<Rightarrow> nat \<Rightarrow> string list \<Rightarrow> suggestion list \<Rightarrow>
    (py_error + suggestion list) \<times> lexicon" where
  "collect_st self word max_distance [] suggestions = (Inr suggestions, self)"
| "collect_st self word max_distance (dict_word # rest) suggestions =
     (case calculate_similarity_st self word dict_word of
        (distance, self) \<Rightarrow>
          if distance \<le> max_distance then
            (case score self word dict_word distance of
               Inl e \<Rightarrow> (Inl e, self)
             | Inr s \<Rightarrow> collect_st self word max_distance rest (suggestions @ [s]))
          else collect_st self word max_distance rest suggestions)"

definition find_suggestions_st :: "lexicon \<Rightarrow> string \<Rightarrow> int \<Rightarrow> (py_error + string list) \<times> lexicon" where
  "find_suggestions_st self word0 max_suggestions =
     (let word = str_lower word0 in
      if word \<in> set (dictionary self) then (Inr [word], self)
      else case map_of (learned_fixes self) word of
        Some fix \<Rightarrow> (Inr [fix], self)
      | None \<Rightarrow>
          (let max_distance = min 3 (length word div 2 + 1) in
           case collect_st self word max_distance (dictionary self) [] of
             (Inl e, self) \<Rightarrow> (Inl e, self)
           | (Inr suggestions, self) \<Rightarrow>
               (Inr (map fst (slice_to max_suggestions (sort_by_score suggestions))), self)))"

section \<open>The correction pipeline\<close>

record correction =
  original :: string
  suggestions :: "string list"
  best_match :: string

definition correct_word :: "lexicon \<Rightarrow> string \<Rightarrow> int \<Rightarrow> py_error + correction" where
  "correct_word self word max_suggestions =
     (let clean_word = filter isalpha word in
      if clean_word \<noteq> [] then
        (case find_suggestions self clean_word max_suggestions of
           Inl e \<Rightarrow> Inl e
         | Inr [] \<Rightarrow> Inr \<lparr>original = word, suggestions = [], best_match = word\<rparr>
         | Inr (s # ss) \<Rightarrow> Inr \<lparr>original = word, suggestions = s # ss, best_match = s\<rparr>)
      else Inr \<lparr>original = word, suggestions = [word], best_match = word\<rparr>)"

fun correct_words :: "lexicon \<Rightarrow> string list \<Rightarrow> int \<Rightarrow> correction list \<Rightarrow>
    py_error + correction list" where
  "correct_words self [] max_suggestions results = Inr results"
| "correct_words self (word # rest) max_suggestions results =
     (case correct_word self word max_suggestions of
        Inl e \<Rightarrow> Inl e
      | Inr r \<Rightarrow> correct_words self rest max_suggestions (results @ [r]))"

definition autocorrect :: "lexicon \<Rightarrow> string \<Rightarrow> int \<Rightarrow> py_error + correction list" where
  "autocorrect self text0 max_suggestions =
     (let text = (if list_ex (\<lambda>c. c \<in> set ''DWQKOP'') (str_upper text0)
                  then convert_braille_input text0 else text0);
          words = str_split text
      in correct_words self words max_suggestions [])"

record stats =
  total_words :: nat
  learned_corrections :: nat
  most_common_words :: "(string \<times> int) list"

definition get_stats :: "lexicon \<Rightarrow> stats" where
  "get_stats self =
     \<lparr>total_words = length (dictionary self),
      learned_corrections = length (learned_fixes self),
      most_common_words = take 5 (sort_key (\<lambda>x. - snd x) (word_count self))\<rparr>"

text \<open>
  \<^verbatim>\<open>autocorrect\<close> and \<^verbatim>\<open>get_stats\<close> as state transformers: \<^verbatim>\<open>self\<close> goes through the call
  of \<^verbatim>\<open>convert_braille_input\<close> and through every call of \<^verbatim>\<open>find_suggestions\<close>.
\<close>

definition correct_word_st :: "lexicon \<Rightarrow> string \<Rightarrow> int \<Rightarrow> (py_error + correction) \<times> lexicon" where
  "correct_word_st self word max_suggestions =
     (let clean_word = filter isalpha word in
      if clean_word \<noteq> [] then
        (case find_suggestions_st self clean_word max_suggestions of
           (Inl e, self) \<Rightarrow> (Inl e, self)
         | (Inr [], self) \<Rightarrow>
             (Inr \<lparr>original = word, suggestions = [], best_match = word\<rparr>, self)
         | (Inr (s # ss), self) \<Rightarrow>
             (Inr \<lparr>original = word, suggestions = s # ss, best_match = s\<rparr>, self))
      else (Inr \<lparr>original = word, suggestions = [word], best_match = word\<rparr>, self))"

fun correct_words_st :: "lexicon \<Rightarrow> string list \<Rightarrow> int \<Rightarrow> correction list \<Rightarrow>
    (py_error + correction list) \<times> lexicon" where
  "correct_words_st self [] max_suggestions results = (Inr results, self)"
| "correct_words_st self (word # rest) max_suggestions results =
     (case correct_word_st self word max_suggestions of
        (Inl e, self) \<Rightarrow> (Inl e, self)
      | (Inr r, self) \<Rightarrow> correct_words_st self rest max_suggestions (results @ [r]))"

definition autocorrect_st :: "lexicon \<Rightarrow> string \<Rightarrow> int \<Rightarrow> (py_error + correction list) \<times> lexicon" where
  "autocorrect_st self text0 max_suggestions =
     (case (if list_ex (\<lambda>c. c \<in> set ''DWQKOP'') (str_upper text0)
            then convert_braille_input_st self text0 else (text0, self)) of
        (text, self) \<Rightarrow> correct_words_st self (str_split text) max_suggestions [])"

definition get_stats_st :: "lexicon \<Rightarrow> stats \<times> lexicon" where
  "get_stats_st self = (get_stats self, self)"

section \<open>Reference definitions\<close>

text \<open>
  The Levenshtein distance by its recursive definition: an empty string is at the distance of
  the other's length; otherwise the least of a deletion, an insertion and a substitution,
  the substitution being free when the two first characters are equal.
\<close>

fun levenshtein :: "'a list \<Rightarrow> 'a list \<Rightarrow> nat" where
  "levenshtein [] ys = length ys"
| "levenshtein xs [] = length xs"
| "levenshtein (x # xs) (y # ys) =
     min (levenshtein xs (y # ys) + 1)
       (min (levenshtein (x # xs) ys + 1)
            (levenshtein xs ys + (if x = y then 0 else 1)))"

text \<open>
  \<open>edits n xs ys\<close>: \<open>n\<close> single-character edits turn \<open>xs\<close> into \<open>ys\<close>, the two strings being
  read from left to right; a character is kept, deleted, inserted or substituted, and only
  keeping is free.
\<close>

inductive edits :: "nat \<Rightarrow> 'a list \<Rightarrow> 'a list \<Rightarrow> bool" where
  stop: "edits 0 [] []"
| keep: "edits n xs ys \<Longrightarrow> edits n (x # xs) (x # ys)"
| deletion: "edits n xs ys \<Longrightarrow> edits (Suc n) (x # xs) ys"
| insertion: "edits n xs ys \<Longrightarrow> edits (Suc n) xs (y # ys)"
| substitution: "edits n xs ys \<Longrightarrow> edits (Suc n) (x # xs) (y # ys)"

text \<open>
  \<open>candidates\<close>: what the loop of \<^verbatim>\<open>find_suggestions\<close> collects when no division raises, the
  dictionary words within the distance, each with its score and its distance.
\<close>

definition candidates :: "lexicon \<Rightarrow> string \<Rightarrow> nat \<Rightarrow> string list \<Rightarrow> suggestion list" where
  "candidates self word max_distance ds =
     map (\<lambda>d. (d,
            (1 - rat_of_nat (calculate_similarity word d) / rat_of_nat (max (length word) (length d)))
              * (7 / 10) +
            (rat_of_int (case map_of (word_count self) d of None \<Rightarrow> 1 | Some c \<Rightarrow> c) / 100)
              * (3 / 10),
            calculate_similarity word d))
         (filter (\<lambda>d. calculate_similarity word d \<le> max_distance) ds)"

text \<open>
  The loop invariant of the matrix: \<open>dims\<close> says that the matrix has its shape, and
  \<open>filled word1 word2 i j m\<close> that the first row, the first column, the rows before \<open>i\<close> and
  the cells of row \<open>i\<close> before column \<open>j\<close> hold the distances of the prefixes.
\<close>

definition dims :: "nat \<Rightarrow> nat \<Rightarrow> nat list list \<Rightarrow> bool" where
  "dims len1 len2 m \<longleftrightarrow> length m = len1 + 1 \<and> (\<forall>i \<le> len1. length (m ! i) = len2 + 1)"

definition filled :: "string \<Rightarrow> string \<Rightarrow> nat \<Rightarrow> nat \<Rightarrow> nat list list \<Rightarrow> bool" where
  "filled word1 word2 i j m \<longleftrightarrow>
     dims (length word1) (length word2) m \<and>
     (\<forall>i' j'. i' \<le> length word1 \<and> j' \<le> length word2 \<and>
        (i' = 0 \<or> j' = 0 \<or> i' < i \<or> (i' = i \<and> j' < j)) \<longrightarrow>
        m ! i' ! j' = levenshtein (take i' word1) (take j' word2))"


section \<open>The matrix computes the Levenshtein distance\<close>

lemma lev_Nil2 [simp]: "levenshtein xs [] = length xs"
  by (cases xs) auto

lemma lev_snoc_Nil: "levenshtein [] (ys @ [b]) = length ys + 1"
  by simp

lemma lev_single:
  "levenshtein [a] (ys @ [b]) =
     min (levenshtein [] (ys @ [b]) + 1)
       (min (levenshtein [a] ys + 1) (levenshtein [] ys + (if a = b then 0 else 1)))"
  by (induction ys) (auto simp: min_def)


lemma min9_swap:
  fixes p1 :: nat
  shows "min (min (p1 + 1) (min (p2 + 1) (p3 + d)) + 1)
          (min (min (p4 + 1) (min (p5 + 1) (p6 + d)) + 1)
               (min (p7 + 1) (min (p8 + 1) (p9 + d)) + c))
       = min (min (p1 + 1) (min (p4 + 1) (p7 + c)) + 1)
          (min (min (p2 + 1) (min (p5 + 1) (p8 + c)) + 1)
               (min (p3 + 1) (min (p6 + 1) (p9 + c)) + d))"
  by (simp only: min_add_distrib_left min_add_distrib_right min.assoc min.left_commute min.commute add.assoc add.left_commute add.commute)


lemma lev_single2:
  "levenshtein (xs @ [a]) [b] =
     min (levenshtein xs [b] + 1)
       (min (levenshtein (xs @ [a]) [] + 1) (levenshtein xs [] + (if a = b then 0 else 1)))"
  by (induction xs) (auto simp: min_def)


lemma lev_snoc:
  "levenshtein (xs @ [a]) (ys @ [b]) =
     min (levenshtein xs (ys @ [b]) + 1)
       (min (levenshtein (xs @ [a]) ys + 1) (levenshtein xs ys + (if a = b then 0 else 1)))"
proof (induction xs ys rule: levenshtein.induct)
  case (1 ys)
  show ?case using lev_single[of a ys b] by simp
next
  case (2 x xs)
  show ?case using lev_single2[of "x # xs" a b] by simp
next
  case (3 x xs y ys)
  let ?d = "if a = b then 0 else (1::nat)"
  let ?c = "if x = y then 0 else (1::nat)"
  have "levenshtein ((x # xs) @ [a]) ((y # ys) @ [b]) =
     min (levenshtein (xs @ [a]) ((y # ys) @ [b]) + 1)
       (min (levenshtein ((x # xs) @ [a]) (ys @ [b]) + 1)
            (levenshtein (xs @ [a]) (ys @ [b]) + ?c))"
    by (simp only: append_Cons levenshtein.simps)
  also have "\<dots> =
     min (min (levenshtein xs ((y # ys) @ [b]) + 1)
            (min (levenshtein (xs @ [a]) (y # ys) + 1) (levenshtein xs (y # ys) + ?d)) + 1)
       (min (min (levenshtein (x # xs) (ys @ [b]) + 1)
               (min (levenshtein ((x # xs) @ [a]) ys + 1) (levenshtein (x # xs) ys + ?d)) + 1)
            (min (levenshtein xs (ys @ [b]) + 1)
               (min (levenshtein (xs @ [a]) ys + 1) (levenshtein xs ys + ?d)) + ?c))"
    by (simp only: "3.IH")
  also have "\<dots> =
     min (min (levenshtein xs ((y # ys) @ [b]) + 1)
            (min (levenshtein (x # xs) (ys @ [b]) + 1) (levenshtein xs (ys @ [b]) + ?c)) + 1)
       (min (min (levenshtein (xs @ [a]) (y # ys) + 1)
               (min (levenshtein ((x # xs) @ [a]) ys + 1) (levenshtein (xs @ [a]) ys + ?c)) + 1)
            (min (levenshtein xs (y # ys) + 1)
               (min (levenshtein (x # xs) ys + 1) (levenshtein xs ys + ?c)) + ?d))"
    by (rule min9_swap)
  also have "\<dots> = min (levenshtein (x # xs) ((y # ys) @ [b]) + 1)
       (min (levenshtein ((x # xs) @ [a]) (y # ys) + 1)
            (levenshtein (x # xs) (y # ys) + ?d))"
    by (simp only: append_Cons levenshtein.simps)
  finally show ?case .
qed


lemma lev_same [simp]: "levenshtein xs xs = 0"
  by (induction xs) auto

lemma fold_upt_invariant:
  assumes "P a s" and "a \<le> b"
    and "\<And>k t. a \<le> k \<Longrightarrow> k < b \<Longrightarrow> P k t \<Longrightarrow> P (Suc k) (f k t)"
  shows "P b (fold f [a..<b] s)"
  using assms(2,3)
proof (induction b)
  case 0
  then show ?case using assms(1) by simp
next
  case (Suc b)
  show ?case
  proof (cases "a = Suc b")
    case True
    then show ?thesis using assms(1) by simp
  next
    case False
    then have ab: "a \<le> b" using Suc.prems(1) by simp
    have "P b (fold f [a..<b] s)"
      using Suc.IH[OF ab] Suc.prems(2) by simp
    then have "P (Suc b) (f b (fold f [a..<b] s))"
      using Suc.prems(2)[of b] ab by simp
    then show ?thesis using ab by simp
  qed
qed

lemma dims_set_cell:
  assumes "dims len1 len2 m"
  shows "dims len1 len2 (set_cell m i j v)"
proof -
  have "length ((set_cell m i j v) ! k) = len2 + 1" if "k \<le> len1" for k
  proof (cases "k = i")
    case True
    then show ?thesis using assms that by (simp add: dims_def set_cell_def)
  next
    case False
    then show ?thesis using assms that by (simp add: dims_def set_cell_def)
  qed
  then show ?thesis using assms by (simp add: dims_def set_cell_def)
qed

lemma set_cell_same:
  "dims len1 len2 m \<Longrightarrow> i \<le> len1 \<Longrightarrow> j \<le> len2 \<Longrightarrow> set_cell m i j v ! i ! j = v"
  by (simp add: dims_def set_cell_def)

lemma set_cell_other:
  assumes "dims len1 len2 m" "i' \<le> len1" "i' \<noteq> i \<or> j' \<noteq> j"
  shows "set_cell m i j v ! i' ! j' = m ! i' ! j'"
proof (cases "i' = i")
  case True
  then show ?thesis using assms by (simp add: dims_def set_cell_def)
next
  case False
  then show ?thesis by (simp add: set_cell_def)
qed

lemma lev_take_step:
  assumes "1 \<le> i" "i \<le> length word1" "1 \<le> j" "j \<le> length word2"
  shows "levenshtein (take i word1) (take j word2) =
     min (levenshtein (take (i - 1) word1) (take j word2) + 1)
       (min (levenshtein (take i word1) (take (j - 1) word2) + 1)
            (levenshtein (take (i - 1) word1) (take (j - 1) word2) +
               (if word1 ! (i - 1) = word2 ! (j - 1) then 0 else 1)))"
proof -
  obtain i0 j0 where ij: "i = Suc i0" "j = Suc j0"
    using assms by (metis One_nat_def Suc_le_D)
  have t1: "take i word1 = take i0 word1 @ [word1 ! i0]"
    using assms ij by (simp add: take_Suc_conv_app_nth)
  have t2: "take j word2 = take j0 word2 @ [word2 ! j0]"
    using assms ij by (simp add: take_Suc_conv_app_nth)
  show ?thesis
    unfolding t1 t2 using lev_snoc[of "take i0 word1" "word1 ! i0" "take j0 word2" "word2 ! j0"]
    by (simp add: ij t1 t2)
qed

lemma filled_fill_cell:
  assumes inv: "filled word1 word2 i j m"
    and ij: "1 \<le> i" "i \<le> length word1" "1 \<le> j" "j \<le> length word2"
  shows "filled word1 word2 i (Suc j) (fill_cell word1 word2 i j m)"
proof -
  let ?L = "\<lambda>a b. levenshtein (take a word1) (take b word2)"
  let ?v = "min (m ! (i - 1) ! j + 1) (min (m ! i ! (j - 1) + 1)
              (m ! (i - 1) ! (j - 1) + (if word1 ! (i - 1) = word2 ! (j - 1) then 0 else 1)))"
  have d: "dims (length word1) (length word2) m" using inv by (simp add: filled_def)
  have c1: "m ! (i - 1) ! j = ?L (i - 1) j" using inv ij by (simp add: filled_def)
  have c2: "m ! i ! (j - 1) = ?L i (j - 1)" using inv ij by (simp add: filled_def)
  have c3: "m ! (i - 1) ! (j - 1) = ?L (i - 1) (j - 1)"
  proof -
    have a: "i - 1 \<le> length word1" by (rule le_trans[OF diff_le_self ij(2)])
    have b: "j - 1 \<le> length word2" by (rule le_trans[OF diff_le_self ij(4)])
    have c: "i - 1 < i" using ij(1) by simp
    show ?thesis
      using inv[unfolded filled_def, THEN conjunct2, rule_format, of "i - 1" "j - 1"] a b c
      by blast
  qed
  have v: "?v = ?L i j"
    unfolding c1 c2 c3 by (rule lev_take_step[OF ij, symmetric])
  have fc: "fill_cell word1 word2 i j m = set_cell m i j ?v"
    by (simp add: fill_cell_def Let_def)
  show ?thesis
    unfolding filled_def
  proof (intro conjI allI impI)
    show "dims (length word1) (length word2) (fill_cell word1 word2 i j m)"
      unfolding fc using d by (rule dims_set_cell)
  next
    fix i' j'
    assume h: "i' \<le> length word1 \<and> j' \<le> length word2 \<and>
        (i' = 0 \<or> j' = 0 \<or> i' < i \<or> (i' = i \<and> j' < Suc j))"
    show "fill_cell word1 word2 i j m ! i' ! j' = ?L i' j'"
    proof (cases "i' = i \<and> j' = j")
      case True
      then show ?thesis unfolding fc using set_cell_same[OF d ij(2) ij(4)] v by simp
    next
      case False
      then have "set_cell m i j ?v ! i' ! j' = m ! i' ! j'"
        using set_cell_other[OF d, of i' i j' j] h by blast
      moreover have "m ! i' ! j' = ?L i' j'"
      proof -
        have "i' = i \<and> j' < Suc j \<Longrightarrow> i' = i \<and> j' < j"
          using False by (simp add: less_Suc_eq)
        then have "i' = 0 \<or> j' = 0 \<or> i' < i \<or> (i' = i \<and> j' < j)"
          using h by blast
        then show ?thesis
          using inv[unfolded filled_def, THEN conjunct2, rule_format, of i' j'] h by blast
      qed
      ultimately show ?thesis unfolding fc by (rule trans)
    qed
  qed
qed


lemma filled_init:
  assumes m1: "m1 = fold (\<lambda>i m. set_cell m i 0 i) [0..<length word1 + 1]
                 (replicate (length word1 + 1) (replicate (length word2 + 1) 0))"
    and m2: "m2 = fold (\<lambda>j m. set_cell m 0 j j) [0..<length word2 + 1] m1"
  shows "filled word1 word2 1 1 m2"
proof -
  let ?n1 = "length word1" and ?n2 = "length word2"
  let ?P = "\<lambda>k m. dims ?n1 ?n2 m \<and> (\<forall>i < k. i \<le> ?n1 \<longrightarrow> m ! i ! 0 = i)"
  let ?Q = "\<lambda>k m. dims ?n1 ?n2 m \<and> (\<forall>i \<le> ?n1. 0 < i \<longrightarrow> m ! i ! 0 = i)
                \<and> (\<forall>j < k. j \<le> ?n2 \<longrightarrow> m ! 0 ! j = j)"
  have d0: "dims ?n1 ?n2 (replicate (?n1 + 1) (replicate (?n2 + 1) 0))"
  proof -
    have "replicate (?n1 + 1) (replicate (?n2 + 1) (0::nat)) ! i = replicate (?n2 + 1) 0"
      if "i \<le> ?n1" for i
      by (rule nth_replicate) (use that in simp)
    then show ?thesis by (simp only: dims_def length_replicate) simp
  qed
  have "?P (?n1 + 1) (fold (\<lambda>i m. set_cell m i 0 i) [0..<?n1 + 1]
          (replicate (?n1 + 1) (replicate (?n2 + 1) 0)))"
  proof (rule fold_upt_invariant[where P = ?P])
    show "?P 0 (replicate (?n1 + 1) (replicate (?n2 + 1) 0))" using d0 by simp
  next
    show "0 \<le> ?n1 + 1" by simp
  next
    fix k t
    assume k: "0 \<le> k" "k < ?n1 + 1" and P: "?P k t"
    have d: "dims ?n1 ?n2 t" using P by simp
    have kn: "k \<le> ?n1" using k by simp
    have "set_cell t k 0 k ! i ! 0 = i" if "i < Suc k" "i \<le> ?n1" for i
    proof (cases "i = k")
      case True
      then show ?thesis using set_cell_same[OF d kn, of 0 k] by simp
    next
      case False
      then have "set_cell t k 0 k ! i ! 0 = t ! i ! 0"
        using set_cell_other[OF d that(2), of k 0 0 k] by simp
      then show ?thesis using P that False by simp
    qed
    then show "?P (Suc k) (set_cell t k 0 k)" using dims_set_cell[OF d] by simp
  qed
  then have P1: "?P (?n1 + 1) m1" using m1 by simp
  have "?Q (?n2 + 1) (fold (\<lambda>j m. set_cell m 0 j j) [0..<?n2 + 1] m1)"
  proof (rule fold_upt_invariant[where P = ?Q])
    show "?Q 0 m1" using P1 by simp
  next
    show "0 \<le> ?n2 + 1" by simp
  next
    fix k t
    assume k: "0 \<le> k" "k < ?n2 + 1" and Q: "?Q k t"
    have d: "dims ?n1 ?n2 t" using Q by simp
    have kn: "k \<le> ?n2" using k by simp
    have a: "set_cell t 0 k k ! 0 ! j = j" if "j < Suc k" "j \<le> ?n2" for j
    proof (cases "j = k")
      case True
      then show ?thesis using set_cell_same[OF d _ kn, of 0 k] by simp
    next
      case False
      then have "set_cell t 0 k k ! 0 ! j = t ! 0 ! j"
        using set_cell_other[OF d, of 0 0 j k k] by simp
      then show ?thesis using Q that False by simp
    qed
    have b: "set_cell t 0 k k ! i ! 0 = i" if "i \<le> ?n1" "0 < i" for i
    proof -
      have "set_cell t 0 k k ! i ! 0 = t ! i ! 0"
        using set_cell_other[OF d that(1), of 0 0 k k] that(2) by simp
      then show ?thesis using Q that by simp
    qed
    show "?Q (Suc k) (set_cell t 0 k k)" using dims_set_cell[OF d] a b by simp
  qed
  then have Q2: "?Q (?n2 + 1) m2" using m2 by simp
  show ?thesis
    unfolding filled_def
  proof (intro conjI allI impI)
    show "dims ?n1 ?n2 m2" using Q2 by simp
  next
    fix i' j'
    assume h: "i' \<le> ?n1 \<and> j' \<le> ?n2 \<and> (i' = 0 \<or> j' = 0 \<or> i' < 1 \<or> (i' = 1 \<and> j' < 1))"
    then have "i' = 0 \<or> (0 < i' \<and> j' = 0)" by arith
    then show "m2 ! i' ! j' = levenshtein (take i' word1) (take j' word2)"
    proof
      assume "i' = 0"
      then show ?thesis using Q2 h by simp
    next
      assume "0 < i' \<and> j' = 0"
      then show ?thesis using Q2 h by simp
    qed
  qed
qed

lemma filled_row:
  assumes inv: "filled word1 word2 i 1 m" and i: "1 \<le> i" "i \<le> length word1"
  shows "filled word1 word2 (Suc i) 1 (fold (fill_cell word1 word2 i) [1..<length word2 + 1] m)"
proof -
  let ?m' = "fold (fill_cell word1 word2 i) [1..<length word2 + 1] m"
  have "filled word1 word2 i (length word2 + 1) ?m'"
  proof (rule fold_upt_invariant[where P = "filled word1 word2 i"])
    show "filled word1 word2 i 1 m" by (rule inv)
  next
    show "1 \<le> length word2 + 1" by simp
  next
    fix k t
    assume "1 \<le> k" "k < length word2 + 1" "filled word1 word2 i k t"
    then show "filled word1 word2 i (Suc k) (fill_cell word1 word2 i k t)"
      using filled_fill_cell[of word1 word2 i k t] i by simp
  qed
  then have full: "dims (length word1) (length word2) ?m'"
    and cells: "\<And>i' j'. i' \<le> length word1 \<Longrightarrow> j' \<le> length word2 \<Longrightarrow>
        i' = 0 \<or> j' = 0 \<or> i' < i \<or> (i' = i \<and> j' < length word2 + 1) \<Longrightarrow>
        ?m' ! i' ! j' = levenshtein (take i' word1) (take j' word2)"
    unfolding filled_def by blast+
  show ?thesis
    unfolding filled_def
  proof (intro conjI allI impI)
    show "dims (length word1) (length word2) ?m'" by (rule full)
  next
    fix i' j'
    assume h: "i' \<le> length word1 \<and> j' \<le> length word2 \<and>
        (i' = 0 \<or> j' = 0 \<or> i' < Suc i \<or> (i' = Suc i \<and> j' < 1))"
    then have "i' = 0 \<or> j' = 0 \<or> i' < i \<or> (i' = i \<and> j' < length word2 + 1)"
      by (auto simp: less_Suc_eq)
    then show "?m' ! i' ! j' = levenshtein (take i' word1) (take j' word2)"
      using cells h by blast
  qed
qed

lemma filled_all:
  assumes "filled word1 word2 1 1 m"
  shows "filled word1 word2 (length word1 + 1) 1
           (fold (\<lambda>i m. fold (fill_cell word1 word2 i) [1..<length word2 + 1] m)
              [1..<length word1 + 1] m)"
proof (rule fold_upt_invariant[where P = "\<lambda>i. filled word1 word2 i 1"])
  show "filled word1 word2 1 1 m" by (rule assms)
next
  show "1 \<le> length word1 + 1" by simp
next
  fix k t
  assume "1 \<le> k" "k < length word1 + 1" "filled word1 word2 k 1 t"
  then show "filled word1 word2 (Suc k) 1 (fold (fill_cell word1 word2 k) [1..<length word2 + 1] t)"
    using filled_row[of word1 word2 k t] by simp
qed

lemma distance_matrix_final:
  "fold (\<lambda>i m. fold (fill_cell word1 word2 i) [1..<length word2 + 1] m) [1..<length word1 + 1]
     (fold (\<lambda>j m. set_cell m 0 j j) [0..<length word2 + 1]
        (fold (\<lambda>i m. set_cell m i 0 i) [0..<length word1 + 1]
           (replicate (length word1 + 1) (replicate (length word2 + 1) 0))))
     ! length word1 ! length word2 = levenshtein word1 word2"
proof -
  define m1 where "m1 = fold (\<lambda>i m. set_cell m i 0 i) [0..<length word1 + 1]
                 (replicate (length word1 + 1) (replicate (length word2 + 1) 0))"
  define m2 where "m2 = fold (\<lambda>j m. set_cell m 0 j j) [0..<length word2 + 1] m1"
  define m3 where "m3 = fold (\<lambda>i m. fold (fill_cell word1 word2 i) [1..<length word2 + 1] m)
              [1..<length word1 + 1] m2"
  have "filled word1 word2 (length word1 + 1) 1 m3"
    unfolding m3_def by (rule filled_all, rule filled_init[OF m1_def m2_def])
  then have "m3 ! length word1 ! length word2 =
      levenshtein (take (length word1) word1) (take (length word2) word2)"
    unfolding filled_def by simp
  then show ?thesis
    by (simp add: m1_def m2_def m3_def)
qed

lemma calculate_similarity_levenshtein:
  "calculate_similarity word1 word2 = levenshtein word1 word2"
proof (cases "word1 = word2")
  case True
  then show ?thesis by (simp add: calculate_similarity_def)
next
  case False
  then show ?thesis
    unfolding calculate_similarity_def Let_def
    by (simp only: distance_matrix_final if_False)
qed



text \<open>
  The recursive definition is the least number of edits: so many edits turn the one string
  into the other, and no fewer do.
\<close>

lemma edits_insert_all: "edits (length ys) [] ys"
  by (induction ys) (auto intro: edits.intros)

lemma edits_delete_all: "edits (length xs) xs []"
  by (induction xs) (auto intro: edits.intros)

lemma levenshtein_edits: "edits (levenshtein xs ys) xs ys"
proof (induction xs ys rule: levenshtein.induct)
  case (1 ys)
  show ?case by (simp add: edits_insert_all)
next
  case (2 x xs)
  show ?case using edits_delete_all[of "x # xs"] by simp
next
  case (3 x xs y ys)
  let ?d = "levenshtein xs (y # ys) + 1" and ?i = "levenshtein (x # xs) ys + 1"
    and ?s = "levenshtein xs ys + (if x = y then 0 else 1)"
  have d: "edits ?d (x # xs) (y # ys)"
    using "3.IH"(1) by (auto intro: edits.deletion)
  have i: "edits ?i (x # xs) (y # ys)"
    using "3.IH"(2) by (auto intro: edits.insertion)
  have s: "edits ?s (x # xs) (y # ys)"
    using "3.IH"(3) by (auto intro: edits.keep edits.substitution)
  have "levenshtein (x # xs) (y # ys) = ?d \<or> levenshtein (x # xs) (y # ys) = ?i \<or>
        levenshtein (x # xs) (y # ys) = ?s"
    by (simp only: levenshtein.simps min_def) (simp split: if_splits)
  then show ?case using d i s by metis
qed

lemma levenshtein_delete: "levenshtein (x # xs) ys \<le> levenshtein xs ys + 1"
  by (cases ys) simp_all

lemma levenshtein_insert: "levenshtein xs (y # ys) \<le> levenshtein xs ys + 1"
  by (cases xs) simp_all

lemma levenshtein_least: "edits n xs ys \<Longrightarrow> levenshtein xs ys \<le> n"
proof (induction rule: edits.induct)
  case stop
  show ?case by simp
next
  case (keep n xs ys x)
  then show ?case by (simp add: min.coboundedI2)
next
  case (deletion n xs ys x)
  then show ?case using levenshtein_delete[of x xs ys] by simp
next
  case (insertion n xs ys y)
  then show ?case using levenshtein_insert[of xs y ys] by simp
next
  case (substitution n xs ys x y)
  then show ?case by (simp add: min.coboundedI2)
qed

text \<open>
  C2: for every pair of strings, \<^verbatim>\<open>calculate_similarity\<close> returns the Levenshtein edit
  distance of the two strings, as the reference recursive definition gives it (by
  \<open>levenshtein_edits\<close> and \<open>levenshtein_least\<close>, the least number of single-character
  insertions, deletions and substitutions that turn the first string into the second).
\<close>

theorem calculate_similarity_is_levenshtein:
  "calculate_similarity word1 word2 = levenshtein word1 word2"
proof (cases "word1 = word2")
  case True
  have "calculate_similarity word1 word1 = 0"
    by (simp add: calculate_similarity_def)
  moreover have "levenshtein word1 word1 = 0"
    by (rule lev_same)
  ultimately show ?thesis using True by simp
next
  case False
  then have "calculate_similarity word1 word2 =
     fold (\<lambda>i m. fold (fill_cell word1 word2 i) [1..<length word2 + 1] m) [1..<length word1 + 1]
       (fold (\<lambda>j m. set_cell m 0 j j) [0..<length word2 + 1]
          (fold (\<lambda>i m. set_cell m i 0 i) [0..<length word1 + 1]
             (replicate (length word1 + 1) (replicate (length word2 + 1) 0))))
       ! length word1 ! length word2"
    unfolding calculate_similarity_def Let_def by (simp only: if_False)
  then show ?thesis
    by (simp only: distance_matrix_final)
qed

section \<open>Decoding a chord\<close>

lemma chord_key_not_space: "map_of BRAILLE_KEYS c = Some dot \<Longrightarrow> c \<noteq> CHR '' ''"
  by (auto simp: BRAILLE_KEYS_def split: if_splits)

lemma convert_char_chord:
  "map_of BRAILLE_KEYS c = Some dot \<Longrightarrow> convert_char c (result, dots) = (result, insert dot dots)"
  using chord_key_not_space[of c dot] by (simp add: convert_char_def)

lemma fold_convert_char_chords:
  "map (map_of BRAILLE_KEYS) u = map Some ds \<Longrightarrow>
   fold convert_char u (result, dots) = (result, set ds \<union> dots)"
proof (induction u arbitrary: ds dots)
  case Nil
  then show ?case by simp
next
  case (Cons c u)
  then obtain d ds' where ds: "ds = d # ds'" "map_of BRAILLE_KEYS c = Some d"
    "map (map_of BRAILLE_KEYS) u = map Some ds'"
    by (cases ds) auto
  show ?case
    using Cons.IH[OF ds(3), of "insert d dots"] ds(1,2)
    by (simp add: convert_char_chord)
qed

lemma convert_chord:
  assumes "map (\<lambda>c. map_of BRAILLE_KEYS (chr_upper c)) s = map Some ds" and "ds \<noteq> []"
  shows "convert_braille_input s = [dots_to_letter (set ds)]"
proof -
  have "map (map_of BRAILLE_KEYS) (str_upper s) = map Some ds"
    using assms(1) by (simp add: str_upper_def comp_def)
  then have "fold convert_char (str_upper s) ([], {}) = ([], set ds)"
    using fold_convert_char_chords[of "str_upper s" ds "[]" "{}"] by simp
  then show ?thesis using assms(2) by (simp add: convert_braille_input_def)
qed

lemma letter_table_checked:
  "list_all (\<lambda>(p, letter). sorted p \<and> distinct p \<and> p \<noteq> [] \<and>
       map_of DOT_TO_LETTER p = Some letter) DOT_TO_LETTER"
  by code_simp

lemma letter_table_entry:
  assumes "(p, letter) \<in> set DOT_TO_LETTER"
  shows "sorted p" "distinct p" "p \<noteq> []" "map_of DOT_TO_LETTER p = Some letter"
  using assms letter_table_checked unfolding list_all_iff by blast+

lemma dots_to_letter_entry:
  assumes "(p, letter) \<in> set DOT_TO_LETTER" and "set ds = set p"
  shows "dots_to_letter (set ds) = letter"
  using letter_table_entry[OF assms(1)] assms(2)
  by (simp add: dots_to_letter_def sorted_list_of_set.idem_if_sorted_distinct)

lemma chords_of_permutation:
  assumes "mset (map f s) = mset (map Some p)"
  shows "\<exists>ds. map f s = map Some ds \<and> set ds = set p"
proof -
  have "set (map f s) = set (map Some p)"
    using assms by (metis set_mset_mset)
  then have all: "\<forall>c \<in> set s. \<exists>d. f c = Some d \<and> d \<in> set p"
    by auto
  define ds where "ds = map (\<lambda>c. the (f c)) s"
  have m: "map f s = map Some ds"
    unfolding ds_def using all by (induction s) auto
  have "Some ` set ds = Some ` set p"
    using \<open>set (map f s) = set (map Some p)\<close> unfolding m by simp
  then have "set ds = set p"
    by (simp add: inj_image_eq_iff)
  then show ?thesis using m by blast
qed

text \<open>
  C3: for every dot pattern \<open>p\<close> that is a key of the letter table, and every input string made
  of the chord keys of the dots of \<open>p\<close>, each once, in any order and in either letter case,
  \<^verbatim>\<open>convert_braille_input\<close> returns exactly the one letter the table gives to \<open>p\<close>. The
  second hypothesis says that the dots which \<^verbatim>\<open>BRAILLE_KEYS\<close> gives to the upper-cased
  characters of the input are, as a multiset, the dots of \<open>p\<close>.
\<close>

theorem decode_chord:
  assumes "(p, letter) \<in> set DOT_TO_LETTER"
    and "mset (map (\<lambda>c. map_of BRAILLE_KEYS (chr_upper c)) s) = mset (map Some p)"
  shows "convert_braille_input s = [letter]"
proof -
  obtain ds where ds: "map (\<lambda>c. map_of BRAILLE_KEYS (chr_upper c)) s = map Some ds"
    "set ds = set p"
    using chords_of_permutation[OF assms(2)] by blast
  have "ds \<noteq> []"
    using ds(2) letter_table_entry(3)[OF assms(1)] by auto
  then have "convert_braille_input s = [dots_to_letter (set ds)]"
    using convert_chord[OF ds(1)] by simp
  then show ?thesis
    using dots_to_letter_entry[OF assms(1) ds(2)] by simp
qed

theorem decode_chord_witness:
  "([1, 4], CHR ''c'') \<in> set DOT_TO_LETTER \<and>
   mset (map (\<lambda>c. map_of BRAILLE_KEYS (chr_upper c)) ''kD'') = mset (map Some [1, 4]) \<and>
   convert_braille_input ''kD'' = ''c''"
proof -
  have a: "([1, 4], CHR ''c'') \<in> set DOT_TO_LETTER"
    by (simp add: DOT_TO_LETTER_def)
  have b: "mset (map (\<lambda>c. map_of BRAILLE_KEYS (chr_upper c)) ''kD'') = mset (map Some [1, 4])"
    by (simp add: BRAILLE_KEYS_def chr_upper_def ascii_lowercase_def ascii_uppercase_def)
  show ?thesis using a b decode_chord[OF a b] by simp
qed

section \<open>What find_suggestions returns\<close>

lemma set_slice_to: "set (slice_to n xs) \<subseteq> set xs"
  by (auto simp: slice_to_def dest: in_set_takeD)

lemma set_sort_by_score: "set (sort_by_score xs) = set xs"
  by (simp add: sort_by_score_def)

lemma score_Inr: "score self word dict_word distance = Inr s \<Longrightarrow> fst s = dict_word"
  by (auto simp: score_def Let_def split: sum.splits)

lemma small_fits: "\<bar>x\<bar> \<le> 3 \<Longrightarrow> \<not> overflows x"
proof -
  have "(3::rat) < 2 ^ 1024 - 2 ^ 970"
    by simp
  then show "\<bar>x\<bar> \<le> 3 \<Longrightarrow> \<not> overflows x"
    unfolding overflows_def by linarith
qed

lemma true_div_fits:
  "b \<noteq> 0 \<Longrightarrow> \<not> overflows (rat_of_int a / rat_of_int b) \<Longrightarrow>
   true_div a b = Inr (rat_of_int a / rat_of_int b)"
  by (simp add: true_div_def)

lemma ratio_small:
  assumes "distance \<le> 3" and "0 < m"
  shows "\<bar>rat_of_int (int distance) / rat_of_int (int m)\<bar> \<le> 3"
proof -
  have "rat_of_nat distance / rat_of_nat m \<le> rat_of_nat distance / 1"
    using assms(2) by (intro divide_left_mono) auto
  also have "\<dots> \<le> 3"
    using assms(1) by simp
  finally show ?thesis by simp
qed

lemma score_fits:
  assumes "word \<noteq> [] \<or> dict_word \<noteq> []" and "distance \<le> 3"
    and "\<not> overflows (rat_of_int (case map_of (word_count self) dict_word of None \<Rightarrow> 1 | Some c \<Rightarrow> c) / 100)"
  shows "score self word dict_word distance =
     Inr (dict_word,
          (1 - rat_of_nat distance / rat_of_nat (max (length word) (length dict_word))) * (7 / 10) +
          (rat_of_int (case map_of (word_count self) dict_word of None \<Rightarrow> 1 | Some c \<Rightarrow> c) / 100)
            * (3 / 10),
          distance)"
proof -
  let ?m = "max (length word) (length dict_word)"
  have m: "0 < ?m" using assms(1) by (auto simp: less_max_iff_disj)
  have "true_div (int distance) (int ?m) = Inr (rat_of_int (int distance) / rat_of_int (int ?m))"
    using m small_fits[OF ratio_small[OF assms(2) m]] by (intro true_div_fits) auto
  moreover have "true_div (case map_of (word_count self) dict_word of None \<Rightarrow> 1 | Some c \<Rightarrow> c) 100 =
      Inr (rat_of_int (case map_of (word_count self) dict_word of None \<Rightarrow> 1 | Some c \<Rightarrow> c) / 100)"
    using assms(3) true_div_fits[of 100 "case map_of (word_count self) dict_word of None \<Rightarrow> 1 | Some c \<Rightarrow> c"]
    by simp
  ultimately show ?thesis
    by (simp add: score_def Let_def)
qed

lemma count_fits:
  assumes "\<forall>c \<in> snd ` set (word_count self). \<not> overflows (rat_of_int c / 100)"
  shows "\<not> overflows (rat_of_int (case map_of (word_count self) d of None \<Rightarrow> 1 | Some c \<Rightarrow> c) / 100)"
proof (cases "map_of (word_count self) d")
  case None
  have "\<bar>rat_of_int 1 / 100\<bar> \<le> 3" by simp
  then show ?thesis using None small_fits by simp
next
  case (Some c)
  then have "c \<in> snd ` set (word_count self)"
    by (metis map_of_SomeD image_eqI snd_conv)
  then have "\<not> overflows (rat_of_int c / 100)"
    using assms by blast
  then show ?thesis unfolding Some by simp
qed

lemma collect_fits:
  assumes "word \<notin> set ds" and "max_distance \<le> 3"
    and "\<forall>c \<in> snd ` set (word_count self). \<not> overflows (rat_of_int c / 100)"
  shows "collect self word max_distance ds acc = Inr (acc @ candidates self word max_distance ds)"
  using assms(1)
proof (induction ds arbitrary: acc)
  case Nil
  then show ?case by (simp add: candidates_def)
next
  case (Cons d ds)
  have ne: "word \<noteq> [] \<or> d \<noteq> []" using Cons.prems by auto
  have rest: "word \<notin> set ds" using Cons.prems by simp
  show ?case
  proof (cases "calculate_similarity word d \<le> max_distance")
    case True
    then have "calculate_similarity word d \<le> 3" using assms(2) by simp
    then show ?thesis
      using True Cons.IH[OF rest] score_fits[OF ne _ count_fits[OF assms(3)], of "calculate_similarity word d"]
      by (simp add: Let_def candidates_def)
  next
    case False
    then show ?thesis using Cons.IH[OF rest] by (simp add: candidates_def)
  qed
qed

lemma find_suggestions_fits:
  assumes "str_lower w \<notin> set (dictionary self)"
    and "map_of (learned_fixes self) (str_lower w) = None"
    and "\<forall>c \<in> snd ` set (word_count self). \<not> overflows (rat_of_int c / 100)"
  shows "find_suggestions self w n =
     Inr (map fst (slice_to n (sort_by_score
       (candidates self (str_lower w) (min 3 (length (str_lower w) div 2 + 1)) (dictionary self)))))"
proof -
  have "collect self (str_lower w) (min 3 (length (str_lower w) div 2 + 1)) (dictionary self) [] =
      Inr ([] @ candidates self (str_lower w) (min 3 (length (str_lower w) div 2 + 1))
        (dictionary self))"
    by (rule collect_fits[OF assms(1) _ assms(3)]) simp
  then show ?thesis
    using assms(1,2) by (simp add: find_suggestions_def Let_def)
qed

lemma collect_words:
  "collect self word max_distance ds acc = Inr r \<Longrightarrow>
   fst ` set r \<subseteq> fst ` set acc \<union> {d \<in> set ds. calculate_similarity word d \<le> max_distance}"
proof (induction ds arbitrary: acc)
  case Nil
  then show ?case by simp
next
  case (Cons d ds)
  show ?case
  proof (cases "calculate_similarity word d \<le> max_distance")
    case True
    then obtain s where s: "score self word d (calculate_similarity word d) = Inr s"
      and r: "collect self word max_distance ds (acc @ [s]) = Inr r"
      using Cons.prems by (auto simp: Let_def split: sum.splits)
    have "fst s = d" using score_Inr[OF s] .
    then show ?thesis using Cons.IH[OF r] True by auto
  next
    case False
    then have "collect self word max_distance ds acc = Inr r"
      using Cons.prems by simp
    then show ?thesis using Cons.IH[of acc] by auto
  qed
qed

text \<open>
  C4: in every lexicon state, for every string whose lower-cased form is in the dictionary
  and every limit, \<^verbatim>\<open>find_suggestions\<close> returns exactly the one-element list of the
  lower-cased string; the learned fixes and the other words are not consulted.
\<close>

theorem exact_match_short_circuit:
  assumes "str_lower w \<in> set (dictionary self)"
  shows "find_suggestions self w n = Inr [str_lower w]"
  using assms by (simp add: find_suggestions_def Let_def)

theorem exact_match_short_circuit_witness:
  "str_lower ''The'' \<in> set (dictionary \<lparr>dictionary = [''and'', ''the''], word_count = [],
       learned_fixes = [(''the'', ''and'')]\<rparr>) \<and>
   find_suggestions \<lparr>dictionary = [''and'', ''the''], word_count = [],
       learned_fixes = [(''the'', ''and'')]\<rparr> ''The'' 1 = Inr [''the'']"
proof -
  let ?lx = "\<lparr>dictionary = [''and'', ''the''], word_count = [],
       learned_fixes = [(''the'', ''and'')]\<rparr>"
  have a: "str_lower ''The'' \<in> set (dictionary ?lx)"
    by (simp add: str_lower_def chr_lower_def ascii_lowercase_def ascii_uppercase_def)
  have b: "str_lower ''The'' = ''the''"
    by (simp add: str_lower_def chr_lower_def ascii_lowercase_def ascii_uppercase_def)
  show ?thesis using a exact_match_short_circuit[OF a, of 1] unfolding b by simp
qed

text \<open>
  C5: in every lexicon state, for every string whose lower-cased form is not in the dictionary
  but is a key of the learned fixes, and every limit, \<^verbatim>\<open>find_suggestions\<close> returns exactly
  the one-element list of the learned fix, whatever words the dictionary holds.
\<close>

theorem learned_fix_precedence:
  assumes "str_lower w \<notin> set (dictionary self)"
    and "map_of (learned_fixes self) (str_lower w) = Some fix"
  shows "find_suggestions self w n = Inr [fix]"
  using assms by (simp add: find_suggestions_def Let_def)

theorem learned_fix_precedence_witness:
  "str_lower ''helo'' \<notin> set (dictionary \<lparr>dictionary = [''help'', ''hello''],
       word_count = [(''help'', 1), (''hello'', 1)], learned_fixes = [(''helo'', ''hello'')]\<rparr>) \<and>
   map_of (learned_fixes \<lparr>dictionary = [''help'', ''hello''],
       word_count = [(''help'', 1), (''hello'', 1)], learned_fixes = [(''helo'', ''hello'')]\<rparr>)
     (str_lower ''helo'') = Some ''hello'' \<and>
   find_suggestions \<lparr>dictionary = [''help'', ''hello''],
       word_count = [(''help'', 1), (''hello'', 1)], learned_fixes = [(''helo'', ''hello'')]\<rparr>
     ''helo'' 1 = Inr [''hello'']"
proof -
  let ?lx = "\<lparr>dictionary = [''help'', ''hello''],
       word_count = [(''help'', 1), (''hello'', 1)], learned_fixes = [(''helo'', ''hello'')]\<rparr>"
  have l: "str_lower ''helo'' = ''helo''"
    by (simp add: str_lower_def chr_lower_def ascii_lowercase_def ascii_uppercase_def)
  have a: "str_lower ''helo'' \<notin> set (dictionary ?lx)"
    unfolding l by simp
  have b: "map_of (learned_fixes ?lx) (str_lower ''helo'') = Some ''hello''"
    unfolding l by simp
  show ?thesis by (intro conjI a b learned_fix_precedence[OF a b])
qed

lemma teh_lower: "str_lower ''teh'' = ''teh''"
  by code_simp

lemma teh_the: "calculate_similarity ''teh'' ''the'' = 2"
  by code_simp

lemma teh_suggestions:
  "find_suggestions \<lparr>dictionary = [''the'', ''computer''],
         word_count = [(''the'', 1), (''computer'', 1)], learned_fixes = []\<rparr> ''teh'' 3
     = Inr [''the'']"
proof -
  let ?lx = "\<lparr>dictionary = [''the'', ''computer''],
         word_count = [(''the'', 1), (''computer'', 1)], learned_fixes = []\<rparr>"
  have a: "str_lower ''teh'' \<notin> set (dictionary ?lx)"
    unfolding teh_lower by simp
  have b: "map_of (learned_fixes ?lx) (str_lower ''teh'') = None"
    by simp
  have c: "\<forall>c \<in> snd ` set (word_count ?lx). \<not> overflows (rat_of_int c / 100)"
    by (simp add: small_fits)
  have "map fst (slice_to 3 (sort_by_score
       (candidates ?lx (str_lower ''teh'') (min 3 (length (str_lower ''teh'') div 2 + 1))
          (dictionary ?lx)))) = [''the'']"
    by code_simp
  then show ?thesis
    unfolding find_suggestions_fits[OF a b c] by simp
qed

text \<open>
  C6, as stated, fails: a learned fix is returned whatever its distance from the query. With
  the fix \<^verbatim>\<open>teh -> computer\<close> learned, \<^verbatim>\<open>find_suggestions("teh", 3)\<close> returns
  \<^verbatim>\<open>["computer"]\<close>, at distance 6, while the bound for a query of length 3 is 2.
\<close>

theorem learned_fix_beyond_distance:
  "find_suggestions \<lparr>dictionary = [''computer''], word_count = [(''computer'', 1)],
       learned_fixes = [(''teh'', ''computer'')]\<rparr> ''teh'' 3 = Inr [''computer''] \<and>
   \<not> levenshtein (str_lower ''teh'') ''computer'' \<le> min 3 (length ''teh'' div 2 + 1)"
proof -
  have l: "str_lower ''teh'' = ''teh''"
    by (simp add: str_lower_def chr_lower_def ascii_lowercase_def ascii_uppercase_def)
  have a: "find_suggestions \<lparr>dictionary = [''computer''], word_count = [(''computer'', 1)],
       learned_fixes = [(''teh'', ''computer'')]\<rparr> ''teh'' 3 = Inr [''computer'']"
    by (simp add: find_suggestions_def l)
  have b: "levenshtein ''teh'' ''computer'' = 6"
    by code_simp
  show ?thesis using a b unfolding l by simp
qed

text \<open>
  C6, amended: in every lexicon state, for every query whose lower-cased form is in the
  dictionary or has no learned fix, and every limit, every word that \<^verbatim>\<open>find_suggestions\<close>
  returns is at Levenshtein distance at most \<open>min 3 (length (str_lower w) div 2 + 1)\<close> from the
  lower-cased query. The bound is taken from the length of the lower-cased query, as the source
  takes it (\<^verbatim>\<open>len(word)\<close> after \<^verbatim>\<open>word = word.lower()\<close>); the proof uses no property of the
  case mapping, so the statement does not rest on a query keeping its length when lower-cased.
\<close>

theorem suggestions_within_distance:
  assumes "str_lower w \<in> set (dictionary self) \<or> map_of (learned_fixes self) (str_lower w) = None"
    and "find_suggestions self w n = Inr ws" and "s \<in> set ws"
  shows "levenshtein (str_lower w) s \<le> min 3 (length (str_lower w) div 2 + 1)"
proof (cases "str_lower w \<in> set (dictionary self)")
  case True
  then have "ws = [str_lower w]"
    using assms(2) by (simp add: find_suggestions_def Let_def)
  then show ?thesis using assms(3) by simp
next
  case False
  then have none: "map_of (learned_fixes self) (str_lower w) = None"
    using assms(1) by simp
  let ?k = "min 3 (length (str_lower w) div 2 + 1)"
  obtain r where r: "collect self (str_lower w) ?k (dictionary self) [] = Inr r"
    and ws: "ws = map fst (slice_to n (sort_by_score r))"
    using assms(2) False none by (auto simp: find_suggestions_def Let_def split: sum.splits)
  have "s \<in> fst ` set r"
    using assms(3) set_slice_to[of n "sort_by_score r"] unfolding ws set_sort_by_score by auto
  then have "calculate_similarity (str_lower w) s \<le> ?k"
    using collect_words[OF r] by auto
  then show ?thesis
    by (simp only: calculate_similarity_levenshtein)
qed

theorem suggestions_within_distance_witness:
  "(str_lower ''teh'' \<in> set (dictionary \<lparr>dictionary = [''the'', ''computer''],
         word_count = [(''the'', 1), (''computer'', 1)], learned_fixes = []\<rparr>) \<or>
    map_of (learned_fixes \<lparr>dictionary = [''the'', ''computer''],
         word_count = [(''the'', 1), (''computer'', 1)], learned_fixes = []\<rparr>)
      (str_lower ''teh'') = None) \<and>
   find_suggestions \<lparr>dictionary = [''the'', ''computer''],
         word_count = [(''the'', 1), (''computer'', 1)], learned_fixes = []\<rparr> ''teh'' 3
     = Inr [''the''] \<and>
   ''the'' \<in> set [''the''] \<and>
   levenshtein (str_lower ''teh'') ''the'' \<le> min 3 (length (str_lower ''teh'') div 2 + 1)"
proof -
  let ?lx = "\<lparr>dictionary = [''the'', ''computer''],
         word_count = [(''the'', 1), (''computer'', 1)], learned_fixes = []\<rparr>"
  have a: "str_lower ''teh'' \<in> set (dictionary ?lx) \<or>
      map_of (learned_fixes ?lx) (str_lower ''teh'') = None"
    by simp
  have b: "find_suggestions ?lx ''teh'' 3 = Inr [''the'']"
    by (rule teh_suggestions)
  have c: "''the'' \<in> set [''the'']"
    by simp
  show ?thesis by (intro conjI a b c suggestions_within_distance[OF a b c])
qed

lemma big_count: "true_div (10 ^ 311) 100 = Inl OverflowError"
  by (simp add: true_div_def overflows_def)

text \<open>
  C9, as stated, fails: the score divides the count of a word by 100 as a float, and
  \<^verbatim>\<open>find_suggestions\<close> raises \<^verbatim>\<open>OverflowError\<close> when that quotient is beyond the floats. With
  the dictionary \<^verbatim>\<open>{"the"}\<close> and the count \<open>10 ^ 311\<close> for \<^verbatim>\<open>"the"\<close>,
  \<^verbatim>\<open>find_suggestions("teh", 3)\<close> raises.
\<close>

theorem find_suggestions_overflow:
  "find_suggestions \<lparr>dictionary = [''the''], word_count = [(''the'', 10 ^ 311)],
       learned_fixes = []\<rparr> ''teh'' 3 = Inl OverflowError"
proof -
  let ?lx = "\<lparr>dictionary = [''the''], word_count = [(''the'', 10 ^ 311)], learned_fixes = []\<rparr>"
  have ratio: "true_div (int 2) (int (max (length ''teh'') (length ''the''))) = Inr (2 / 3)"
    by (simp add: true_div_def overflows_def)
  have count: "(case map_of (word_count ?lx) ''the'' of None \<Rightarrow> 1 | Some c \<Rightarrow> c) = 10 ^ 311"
    by simp
  have "score ?lx ''teh'' ''the'' 2 = Inl OverflowError"
    unfolding score_def by (simp only: ratio Let_def count big_count sum.case)
  then have c: "collect ?lx ''teh'' 2 [''the''] [] = Inl OverflowError"
    by (simp only: collect.simps Let_def teh_the order_refl if_True sum.case)
  have k: "min 3 (length ''teh'' div 2 + 1) = (2::nat)"
    by simp
  have d: "dictionary ?lx = [''the'']"
    by simp
  have nd: "''teh'' \<notin> set (dictionary ?lx)"
    by simp
  have lf: "map_of (learned_fixes ?lx) ''teh'' = None"
    by simp
  show ?thesis
    unfolding find_suggestions_def Let_def teh_lower k
    using nd by (simp only: if_False lf option.case d c sum.case)
qed

text \<open>
  C9, amended: when the dictionary, the word counts and the learned fixes are all empty,
  \<^verbatim>\<open>find_suggestions\<close> returns the empty list for every query and limit; and in every
  lexicon state in which no count, divided by 100, is beyond the floats, for every query and
  limit, \<^verbatim>\<open>find_suggestions\<close> returns a list and raises nothing (the first division of the
  score is never by zero, since a query that reaches the loop differs from every dictionary
  word, and its quotient is at most 3).
\<close>

theorem find_suggestions_in_range:
  "(dictionary self = [] \<and> word_count self = [] \<and> learned_fixes self = [] \<longrightarrow>
      find_suggestions self w n = Inr []) \<and>
   ((\<forall>c \<in> snd ` set (word_count self). \<not> overflows (rat_of_int c / 100)) \<longrightarrow>
      (\<exists>ws. find_suggestions self w n = Inr ws))"
proof (intro conjI impI)
  assume "dictionary self = [] \<and> word_count self = [] \<and> learned_fixes self = []"
  then show "find_suggestions self w n = Inr []"
    by (simp add: find_suggestions_def Let_def sort_by_score_def slice_to_def)
next
  assume fits: "\<forall>c \<in> snd ` set (word_count self). \<not> overflows (rat_of_int c / 100)"
  show "\<exists>ws. find_suggestions self w n = Inr ws"
  proof (cases "str_lower w \<in> set (dictionary self)")
    case True
    then show ?thesis by (simp add: find_suggestions_def Let_def)
  next
    case False
    show ?thesis
    proof (cases "map_of (learned_fixes self) (str_lower w)")
      case None
      show ?thesis
        unfolding find_suggestions_fits[OF False None fits] by blast
    next
      case (Some learned)
      then show ?thesis using False by (simp add: find_suggestions_def Let_def)
    qed
  qed
qed

theorem find_suggestions_in_range_witness:
  "(dictionary \<lparr>dictionary = [], word_count = [], learned_fixes = []\<rparr> = [] \<and>
    word_count \<lparr>dictionary = [], word_count = [], learned_fixes = []\<rparr> = [] \<and>
    learned_fixes \<lparr>dictionary = [], word_count = [], learned_fixes = []\<rparr> = [] \<and>
    find_suggestions \<lparr>dictionary = [], word_count = [], learned_fixes = []\<rparr> ''helo'' 3 = Inr []) \<and>
   (\<not> overflows (rat_of_int 1 / 100) \<and>
    (\<exists>ws. find_suggestions \<lparr>dictionary = [''the'', ''computer''],
         word_count = [(''the'', 1), (''computer'', 1)], learned_fixes = []\<rparr> ''teh'' 3 = Inr ws))"
proof -
  let ?e = "\<lparr>dictionary = [], word_count = [], learned_fixes = []\<rparr>"
  let ?lx = "\<lparr>dictionary = [''the'', ''computer''],
         word_count = [(''the'', 1), (''computer'', 1)], learned_fixes = []\<rparr>"
  have e: "dictionary ?e = [] \<and> word_count ?e = [] \<and> learned_fixes ?e = []"
    by simp
  have one: "\<not> overflows (rat_of_int 1 / 100)"
    by (rule small_fits) simp
  then have c: "\<forall>c \<in> snd ` set (word_count ?lx). \<not> overflows (rat_of_int c / 100)"
    by simp
  have 1: "find_suggestions ?e ''helo'' 3 = Inr []"
    using find_suggestions_in_range[of ?e "''helo''" 3] e by blast
  have 2: "\<exists>ws. find_suggestions ?lx ''teh'' 3 = Inr ws"
    using find_suggestions_in_range[of ?lx "''teh''" 3] c by blast
  show ?thesis using e one 1 2 by blast
qed

section \<open>Adding words and learning corrections\<close>

lemma add_word_fields:
  assumes "str_strip (str_lower w) = nw"
  shows "dictionary (add_word self w) =
           (if nw = [] \<or> nw \<in> set (dictionary self) then dictionary self else dictionary self @ [nw])"
    and "word_count (add_word self w) =
           (if nw = [] then word_count self
            else AList.update nw (frequencyOf self nw + 1) (word_count self))"
    and "learned_fixes (add_word self w) = learned_fixes self"
  using assms by (auto simp: add_word_def Let_def frequencyOf_def)

lemma frequencyOf_add_word:
  assumes "str_strip (str_lower w) = nw" and "nw \<noteq> []"
  shows "frequencyOf (add_word self w) nw = frequencyOf self nw + 1"
  using assms by (simp add: frequencyOf_def add_word_fields(2)[OF assms(1)] update_conv')

text \<open>
  C8: in every lexicon state, for every string \<open>w\<close> whose lower-cased and stripped form \<open>nw\<close> is
  not empty, two calls of \<^verbatim>\<open>add_word(w)\<close> leave \<open>nw\<close> in the dictionary, add nothing to the
  dictionary but \<open>nw\<close> (at most one more entry, and no duplicate where there was none), and
  raise the count of \<open>nw\<close> by exactly 2; a word that had no count has the count 1 after the
  first call.
\<close>

theorem add_word_twice:
  assumes "str_strip (str_lower w) = nw" and "nw \<noteq> []"
  shows "nw \<in> set (dictionary (add_word (add_word self w) w)) \<and>
         set (dictionary (add_word (add_word self w) w)) = insert nw (set (dictionary self)) \<and>
         length (dictionary (add_word (add_word self w) w)) \<le> length (dictionary self) + 1 \<and>
         (distinct (dictionary self) \<longrightarrow> distinct (dictionary (add_word (add_word self w) w))) \<and>
         frequencyOf (add_word (add_word self w) w) nw = frequencyOf self nw + 2 \<and>
         (map_of (word_count self) nw = None \<longrightarrow> frequencyOf (add_word self w) nw = 1)"
proof -
  let ?s1 = "add_word self w" and ?s2 = "add_word (add_word self w) w"
  have d1: "dictionary ?s1 = (if nw \<in> set (dictionary self) then dictionary self
                              else dictionary self @ [nw])"
    using add_word_fields(1)[OF assms(1), of self] assms(2) by simp
  have in1: "nw \<in> set (dictionary ?s1)"
    unfolding d1 by simp
  have d2: "dictionary ?s2 = dictionary ?s1"
    using add_word_fields(1)[OF assms(1), of ?s1] in1 by simp
  have f1: "frequencyOf ?s1 nw = frequencyOf self nw + 1"
    by (rule frequencyOf_add_word[OF assms])
  have f2: "frequencyOf ?s2 nw = frequencyOf ?s1 nw + 1"
    by (rule frequencyOf_add_word[OF assms])
  have "nw \<in> set (dictionary ?s2)"
    unfolding d2 by (rule in1)
  moreover have "set (dictionary ?s2) = insert nw (set (dictionary self))"
    unfolding d2 d1 by auto
  moreover have "length (dictionary ?s2) \<le> length (dictionary self) + 1"
    unfolding d2 d1 by simp
  moreover have "distinct (dictionary self) \<longrightarrow> distinct (dictionary ?s2)"
    unfolding d2 d1 by simp
  moreover have "frequencyOf ?s2 nw = frequencyOf self nw + 2"
    unfolding f2 f1 by simp
  moreover have "map_of (word_count self) nw = None \<longrightarrow> frequencyOf ?s1 nw = 1"
    unfolding f1 by (simp add: frequencyOf_def)
  ultimately show ?thesis by blast
qed

theorem add_word_twice_witness:
  "str_strip (str_lower '' The '') = ''the'' \<and> ''the'' \<noteq> [] \<and>
   ''the'' \<in> set (dictionary (add_word (add_word
       \<lparr>dictionary = [''and''], word_count = [(''and'', 1)], learned_fixes = []\<rparr> '' The '') '' The '')) \<and>
   frequencyOf (add_word (add_word
       \<lparr>dictionary = [''and''], word_count = [(''and'', 1)], learned_fixes = []\<rparr> '' The '') '' The '')
     ''the'' = 2"
proof -
  have a: "str_strip (str_lower '' The '') = ''the''"
    by code_simp
  have b: "''the'' \<noteq> []"
    by simp
  have c: "frequencyOf \<lparr>dictionary = [''and''], word_count = [(''and'', 1)], learned_fixes = []\<rparr>
      ''the'' = 0"
    by (simp add: frequencyOf_def)
  show ?thesis
    using a b add_word_twice[OF a b,
        of "\<lparr>dictionary = [''and''], word_count = [(''and'', 1)], learned_fixes = []\<rparr>"]
    unfolding c by simp
qed

lemma learn_correction_fields:
  "learned_fixes (learn_correction self a b) =
     AList.update (str_lower a) (str_lower b) (learned_fixes self)"
  "dictionary (learn_correction self a b) =
     (if str_strip (str_lower (str_lower b)) = [] \<or>
         str_strip (str_lower (str_lower b)) \<in> set (dictionary self)
      then dictionary self else dictionary self @ [str_strip (str_lower (str_lower b))])"
  by (simp_all add: learn_correction_def Let_def add_word_fields[OF refl])

lemma init_eq:
  "init = \<lparr>dictionary = basic_words, word_count = map (\<lambda>w. (w, 1)) basic_words,
            learned_fixes = []\<rparr>"
  by code_simp

lemma hello_space_lower: "str_lower ''hello '' = ''hello ''"
  by code_simp

lemma hello_space_strip: "str_strip ''hello '' = ''hello''"
  by code_simp

lemma helo_lower: "str_lower ''helo'' = ''helo''"
  by code_simp

lemma hello_space_unknown: "''hello '' \<notin> set basic_words"
  by code_simp

lemma hello_known: "''hello'' \<in> set basic_words"
  by code_simp

text \<open>
  C7 does not hold of the code. \<^verbatim>\<open>learn_correction\<close> stores the lower-cased correct word, and
  \<^verbatim>\<open>add_word\<close> inserts the lower-cased and stripped one, and nothing when that is empty. On
  the initial lexicon, \<^verbatim>\<open>learn_correction("helo", "hello ")\<close> stores the value
  \<^verbatim>\<open>"hello "\<close>, which is not in the dictionary.
\<close>

theorem learned_fix_outside_dictionary:
  "map_of (learned_fixes (learn_correction init ''helo'' ''hello '')) ''helo'' = Some ''hello '' \<and>
   ''hello '' \<notin> set (dictionary (learn_correction init ''helo'' ''hello ''))"
proof -
  have d: "dictionary init = basic_words"
    by (simp add: init_eq)
  have "learned_fixes (learn_correction init ''helo'' ''hello '') =
      AList.update ''helo'' ''hello '' (learned_fixes init)"
    unfolding learn_correction_fields(1) helo_lower hello_space_lower by (rule refl)
  then have a: "map_of (learned_fixes (learn_correction init ''helo'' ''hello '')) ''helo'' =
      Some ''hello ''"
    by (simp add: update_conv')
  have "dictionary (learn_correction init ''helo'' ''hello '') = basic_words"
    unfolding learn_correction_fields(2) hello_space_lower hello_space_strip d
    using hello_known by simp
  then have b: "''hello '' \<notin> set (dictionary (learn_correction init ''helo'' ''hello ''))"
    using hello_space_unknown by simp
  show ?thesis using a b by (rule conjI)
qed

section \<open>The end-to-end scenario\<close>

lemma helo_has_chord_key: "list_ex (\<lambda>c. c \<in> set ''DWQKOP'') (str_upper ''helo'')"
  by code_simp

lemma helo_decoded: "convert_braille_input ''helo'' = ''hel?''"
  by code_simp

lemma helo_split: "str_split ''hel?'' = [''hel?'']"
  by code_simp

lemma helo_clean: "filter isalpha ''hel?'' = ''hel''"
  by code_simp

lemma hel_lower: "str_lower ''hel'' = ''hel''"
  by code_simp

lemma hel_unknown: "''hel'' \<notin> set basic_words"
  by code_simp

lemma slice_to_Cons: "1 \<le> n \<Longrightarrow> slice_to n (x # xs) = x # slice_to (n - 1) xs"
  by (cases "nat n") (auto simp: slice_to_def nat_diff_distrib' Suc_nat_eq_nat_zadd1)


lemma hel_suggestions:
  assumes "1 \<le> n"
  shows "\<exists>ss. find_suggestions init ''hel'' n = Inr (''her'' # ss)"
proof -
  let ?found = "[(''the'', 709 / 3000, 2), (''all'', 709 / 3000, 2), (''had'', 709 / 3000, 2),
          (''her'', 1409 / 3000, 1), (''get'', 709 / 3000, 2), (''has'', 709 / 3000, 2),
          (''him'', 709 / 3000, 2), (''his'', 709 / 3000, 2), (''how'', 709 / 3000, 2),
          (''new'', 709 / 3000, 2), (''see'', 709 / 3000, 2), (''let'', 709 / 3000, 2),
          (''she'', 709 / 3000, 2), (''here'', 353 / 1000, 2), (''tell'', 353 / 1000, 2),
          (''well'', 353 / 1000, 2), (''when'', 353 / 1000, 2), (''hello'', 423 / 1000, 2)]
        :: suggestion list"
  let ?rest = "[(''hello'', 423 / 1000, 2), (''here'', 353 / 1000, 2),
      (''tell'', 353 / 1000, 2), (''well'', 353 / 1000, 2), (''when'', 353 / 1000, 2),
      (''the'', 709 / 3000, 2), (''all'', 709 / 3000, 2), (''had'', 709 / 3000, 2),
      (''get'', 709 / 3000, 2), (''has'', 709 / 3000, 2), (''him'', 709 / 3000, 2),
      (''his'', 709 / 3000, 2), (''how'', 709 / 3000, 2), (''new'', 709 / 3000, 2),
      (''see'', 709 / 3000, 2), (''let'', 709 / 3000, 2), (''she'', 709 / 3000, 2)]
        :: suggestion list"
  have k: "min 3 (length ''hel'' div 2 + 1) = (2::nat)"
    by simp
  have d: "dictionary init = basic_words"
    by (simp add: init_eq)
  have lf: "map_of (learned_fixes init) ''hel'' = None"
    by (simp add: init_eq)
  have "\<not> overflows (1 / 100)"
    using small_fits[of "1 / 100"] by simp
  then have fits: "\<forall>c \<in> snd ` set (word_count init). \<not> overflows (rat_of_int c / 100)"
    by (auto simp: init_eq)
  have "candidates init ''hel'' 2 basic_words = ?found"
    unfolding init_eq by code_simp
  moreover have "collect init ''hel'' 2 basic_words [] =
      Inr ([] @ candidates init ''hel'' 2 basic_words)"
    by (rule collect_fits[OF hel_unknown _ fits]) simp
  ultimately have found: "collect init ''hel'' 2 basic_words [] = Inr ?found"
    by simp
  have ranked: "sort_by_score ?found = (''her'', 1409 / 3000, 1) # ?rest"
    by code_simp
  have "find_suggestions init ''hel'' n =
      Inr (map fst (slice_to n ((''her'', 1409 / 3000, 1) # ?rest)))"
    unfolding find_suggestions_def Let_def hel_lower d k lf
    using hel_unknown
    by (simp only: if_False option.case sum.case found ranked)
  then have "find_suggestions init ''hel'' n = Inr (''her'' # map fst (slice_to (n - 1) ?rest))"
    by (simp only: slice_to_Cons[OF assms] list.map fst_conv)
  then show ?thesis by (rule exI[of _ "map fst (slice_to (n - 1) ?rest)"])
qed

lemma autocorrect_braille:
  assumes "list_ex (\<lambda>c. c \<in> set ''DWQKOP'') (str_upper text0)"
  shows "autocorrect self text0 n = correct_words self (str_split (convert_braille_input text0)) n []"
  using assms by (simp add: autocorrect_def Let_def)

text \<open>
  C1 does not hold of the code. \<^verbatim>\<open>"helo"\<close> contains the chord key \<^verbatim>\<open>o\<close>, so
  \<^verbatim>\<open>autocorrect\<close> decodes it first, to \<^verbatim>\<open>"hel?"\<close>; the query is then \<^verbatim>\<open>"hel"\<close>, and the
  one candidate at distance 1, \<^verbatim>\<open>"her"\<close>, has the highest score of all (1409/3000, before
  \<^verbatim>\<open>"hello"\<close> at 423/1000). On the initial lexicon, for every limit \<open>n \<ge> 1\<close>,
  \<^verbatim>\<open>autocorrect("helo", n)\<close> returns one result, whose best match is \<^verbatim>\<open>"her"\<close>. The score of
  \<^verbatim>\<open>"her"\<close> is more than 0.04 above every other, far more than the rounding of a float, so the
  first suggestion depends neither on that rounding, nor on the order in which the dictionary
  is visited, nor on how the sort orders equal scores.
\<close>

theorem helo_best_match:
  assumes "1 \<le> n"
  shows "\<exists>ss. autocorrect init ''helo'' n =
     Inr [\<lparr>original = ''hel?'', suggestions = ''her'' # ss, best_match = ''her''\<rparr>]"
proof -
  obtain ss where ss: "find_suggestions init ''hel'' n = Inr (''her'' # ss)"
    using hel_suggestions[OF assms] by blast
  let ?r = "\<lparr>original = ''hel?'', suggestions = ''her'' # ss, best_match = ''her''\<rparr>"
  have ne: "''hel'' \<noteq> []"
    by simp
  have cw: "correct_word init ''hel?'' n = Inr ?r"
    unfolding correct_word_def Let_def helo_clean ss
    using ne by (simp only: if_True sum.case list.case not_False_eq_True)
  have w: "correct_words init [''hel?''] n [] = Inr [?r]"
    by (simp only: correct_words.simps cw sum.case append_Nil)
  have "autocorrect init ''helo'' n =
      correct_words init (str_split (convert_braille_input ''helo'')) n []"
    by (rule autocorrect_braille[OF helo_has_chord_key])
  also have "\<dots> = Inr [?r]"
    by (simp only: helo_decoded helo_split w)
  finally have "autocorrect init ''helo'' n = Inr [?r]" .
  then show ?thesis by (rule exI[of _ ss])
qed

theorem helo_best_match_witness:
  "(1::int) \<le> 3 \<and> (\<exists>ss. autocorrect init ''helo'' 3 =
     Inr [\<lparr>original = ''hel?'', suggestions = ''her'' # ss, best_match = ''her''\<rparr>])"
proof -
  have a: "(1::int) \<le> 3"
    by simp
  show ?thesis by (intro conjI a helo_best_match[OF a])
qed

section \<open>The queries leave the lexicon as it was\<close>

lemma convert_chars_st_eq:
  "convert_chars_st self cs state = (fold convert_char cs state, self)"
proof (induction cs arbitrary: state)
  case Nil
  then show ?case by simp
next
  case (Cons c cs)
  obtain result dots where st: "state = (result, dots)"
    by (cases state)
  show ?case
    unfolding st
    by (simp add: Cons.IH convert_char_def dots_to_letter_st_def split: option.splits)
qed

lemma convert_braille_input_st_eq:
  "convert_braille_input_st self input_text = (convert_braille_input input_text, self)"
  by (simp add: convert_braille_input_st_def convert_braille_input_def convert_chars_st_eq
      dots_to_letter_st_def split: prod.splits)

lemma collect_st_eq:
  "collect_st self word k ds acc = (collect self word k ds acc, self)"
  by (induction ds arbitrary: acc)
     (simp_all add: calculate_similarity_st_def Let_def split: sum.splits)

lemma find_suggestions_st_eq:
  "find_suggestions_st self word n = (find_suggestions self word n, self)"
  by (simp add: find_suggestions_st_def find_suggestions_def collect_st_eq Let_def
      split: option.splits sum.splits)

lemma correct_word_st_eq:
  "correct_word_st self word n = (correct_word self word n, self)"
  by (simp add: correct_word_st_def correct_word_def find_suggestions_st_eq Let_def
      split: sum.splits list.splits)

lemma correct_words_st_eq:
  "correct_words_st self ws n results = (correct_words self ws n results, self)"
  by (induction ws arbitrary: results)
     (simp_all add: correct_word_st_eq split: sum.splits)

lemma autocorrect_st_eq:
  "autocorrect_st self text n = (autocorrect self text n, self)"
  by (simp add: autocorrect_st_def autocorrect_def convert_braille_input_st_eq
      correct_words_st_eq Let_def)

text \<open>
  C10: in every lexicon state and for every input, a call of \<^verbatim>\<open>convert_braille_input\<close>,
  \<^verbatim>\<open>calculate_similarity\<close>, \<^verbatim>\<open>find_suggestions\<close>, \<^verbatim>\<open>autocorrect\<close> or \<^verbatim>\<open>get_stats\<close> leaves
  the dictionary, the word counts and the learned fixes exactly as they were.
\<close>

theorem queries_leave_lexicon:
  "snd (convert_braille_input_st self input_text) = self \<and>
   snd (calculate_similarity_st self word1 word2) = self \<and>
   snd (find_suggestions_st self word max_suggestions) = self \<and>
   snd (autocorrect_st self text max_suggestions) = self \<and>
   snd (get_stats_st self) = self"
  by (simp add: convert_braille_input_st_eq calculate_similarity_st_def find_suggestions_st_eq
      autocorrect_st_eq get_stats_st_def)

end
